theory Spec2Isabelle
  imports Main "HOL-Library.Sublist"
begin

section \<open>tidypath.py: tidying path-list environment variables\<close>

text \<open>
  A shallow embedding of \<^verbatim>\<open>tidypath.py\<close>. Python strings are \<open>string\<close>, the
  dictionary \<^verbatim>\<open>dups\<close> is a map, the counters are \<open>int\<close>, the text written to
  \<^verbatim>\<open>sys.stdout\<close> and \<^verbatim>\<open>sys.stderr\<close> is accumulated in a record, and
  \<^verbatim>\<open>sys.exit\<close> is the left injection of a sum.
\<close>

subsection \<open>Python string primitives\<close>

definition nl :: char where
  "nl = CHR 0x0A"

definition esc :: char where
  "esc = CHR 0x1B"

text \<open>\<^verbatim>\<open>s.split(sep)\<close> for a separator of one character: never an empty list.\<close>

fun str_split :: "char \<Rightarrow> string \<Rightarrow> string list" where
  "str_split sep [] = [[]]"
| "str_split sep (c # cs) =
     (if c = sep then [] # str_split sep cs
      else (case str_split sep cs of
              [] \<Rightarrow> [[c]]
            | w # ws \<Rightarrow> (c # w) # ws))"

text \<open>\<^verbatim>\<open>sep.join(xs)\<close>.\<close>

fun str_join :: "string \<Rightarrow> string list \<Rightarrow> string" where
  "str_join sep [] = []"
| "str_join sep [x] = x"
| "str_join sep (x # y # ys) = x @ sep @ str_join sep (y # ys)"

text \<open>\<^verbatim>\<open>str(n)\<close> for an integer, and right alignment \<^verbatim>\<open>'{:>w}'.format(s)\<close>.\<close>

fun digits :: "nat \<Rightarrow> string" where
  "digits n =
     (if n < 10 then [''0123456789'' ! n]
      else digits (n div 10) @ [''0123456789'' ! (n mod 10)])"

declare digits.simps [simp del]

definition str_int :: "int \<Rightarrow> string" where
  "str_int i = (if i < 0 then CHR ''-'' # digits (nat (- i)) else digits (nat i))"

definition rjust :: "nat \<Rightarrow> string \<Rightarrow> string" where
  "rjust w s = replicate (w - length s) CHR '' '' @ s"

subsection \<open>The platform\<close>

text \<open>
  What the script reads from the \<^verbatim>\<open>os\<close> module: the environment table, the
  path-list separator (one character, \<^verbatim>\<open>:\<close> or \<^verbatim>\<open>;\<close>), and the three
  \<^verbatim>\<open>os.path\<close> functions it calls. They are parameters of the model; the
  POSIX implementations are given further down.
\<close>

record os =
  environ :: "string \<rightharpoonup> string"
  pathsep :: char
  path_expanduser :: "string \<Rightarrow> string"
  path_abspath :: "string \<Rightarrow> string"
  path_exists :: "string \<Rightarrow> bool"

text \<open>The parsed command line (\<^verbatim>\<open>getopts\<close>).\<close>

record opts =
  color :: bool
  list_opt :: bool
  list_report :: bool
  silent :: bool
  undefined_opt :: bool
  ENV_VARS :: "string list"

text \<open>The two output streams.\<close>

record io =
  stdout :: string
  stderr :: string

datatype error = SystemExit int

definition wri :: "string \<Rightarrow> io \<Rightarrow> io" where
  "wri s io = io\<lparr>stdout := stdout io @ s\<rparr>"

definition print :: "string \<Rightarrow> io \<Rightarrow> io" where
  "print s io = wri (s @ [nl]) io"

subsection \<open>Canonical keys, duplicates, existence\<close>

definition get_canon :: "os \<Rightarrow> string \<Rightarrow> string" where
  "get_canon os cmp = path_abspath os (path_expanduser os cmp)"

text \<open>
  \<^verbatim>\<open>is_dup\<close> returns its answer together with the dictionary as the call
  leaves it.
\<close>

definition is_dup :: "os \<Rightarrow> (string \<rightharpoonup> bool) \<Rightarrow> string \<Rightarrow> bool \<times> (string \<rightharpoonup> bool)" where
  "is_dup os dups cmp =
     (let canon = get_canon os cmp in
      if canon \<in> dom dups then (True, dups)
      else (False, dups(canon \<mapsto> True)))"

definition exists :: "os \<Rightarrow> string \<Rightarrow> bool" where
  "exists os cmp = (let canon = get_canon os cmp in path_exists os canon)"

subsection \<open>The filtering loop of \<^verbatim>\<open>process\<close>\<close>

fun process_loop ::
  "opts \<Rightarrow> os \<Rightarrow> string list \<Rightarrow> (string \<rightharpoonup> bool) \<times> string list
     \<Rightarrow> (string \<rightharpoonup> bool) \<times> string list" where
  "process_loop opts os [] (dups, new_comps) = (dups, new_comps)"
| "process_loop opts os (cmp # comps) (dups, new_comps) =
     (case is_dup os dups cmp of
        (True, dups') \<Rightarrow> process_loop opts os comps (dups', new_comps)
      | (False, dups') \<Rightarrow>
          if undefined_opt opts \<and> \<not> exists os cmp
          then process_loop opts os comps (dups', new_comps)
          else process_loop opts os comps (dups', new_comps @ [cmp]))"

subsection \<open>Error exit\<close>

text \<open>
  \<^verbatim>\<open>err\<close> with its default arguments; \<open>line\<close> is the caller's line number,
  which the script reads from \<^verbatim>\<open>inspect.stack()\<close>.
\<close>

definition err_text :: "string \<Rightarrow> string \<Rightarrow> string" where
  "err_text line msg =
     (esc # ''[31;1m'') @ ''ERROR:'' @ line @ '':'' @ (esc # ''[0;31m'') @ '' '' @ msg
       @ (esc # ''[0m'') @ [nl]"

definition err :: "string \<Rightarrow> string \<Rightarrow> io \<Rightarrow> (error \<times> io) + 'a" where
  "err line msg io = Inl (SystemExit 1, io\<lparr>stderr := stderr io @ err_text line msg\<rparr>)"

subsection \<open>The report (\<^verbatim>\<open>-L\<close>)\<close>

record report_state =
  r_dups :: "string \<rightharpoonup> bool"
  numu :: int
  numd :: int
  numf :: int
  numk :: int
  r_io :: io

text \<open>The colour strings \<^verbatim>\<open>(crb, cgb, crs, cuc)\<close>.\<close>

definition colors :: "opts \<Rightarrow> string \<times> string \<times> string \<times> string" where
  "colors opts =
     (if color opts then
        (let crb = esc # ''[31;1m''; cgb = esc # ''[32;1m''; crs = esc # ''[0m'';
             cuc = (if undefined_opt opts then crb else cgb)
         in (crb, cgb, crs, cuc))
      else ([], [], [], []))"

definition report_body :: "opts \<Rightarrow> os \<Rightarrow> int \<Rightarrow> string \<Rightarrow> report_state \<Rightarrow> report_state" where
  "report_body opts os i cmp st0 =
     (case colors opts of (crb, cgb, crs, cuc) \<Rightarrow>
        let st1 = st0\<lparr>r_io := wri (rjust 4 (str_int i)) (r_io st0)\<rparr>;
            (d, dups') = is_dup os (r_dups st1) cmp;
            st2 = st1\<lparr>r_dups := dups'\<rparr>;
            (kept1, st3) =
              (if d then
                 (False, st2\<lparr>r_io := wri ('' '' @ crb @ ''d'' @ crs) (r_io st2),
                              numd := numd st2 + 1, numf := numf st2 + 1\<rparr>)
               else
                 (True, st2\<lparr>r_io := wri ('' '' @ cgb @ ''u'' @ crs) (r_io st2)\<rparr>));
            (kept2, st4) =
              (if exists os cmp then
                 (True, st3\<lparr>r_io := wri (cgb @ ''e'' @ crs) (r_io st3)\<rparr>)
               else
                 (kept1, st3\<lparr>numu := numu st3 + 1,
                              numf := (if undefined_opt opts then numf st3 + 1 else numf st3),
                              r_io := wri (cuc @ ''n'' @ crs) (r_io st3)\<rparr>));
            st5 = (if kept2 then st4\<lparr>numk := numk st4 + 1\<rparr> else st4)
        in st5\<lparr>r_io := wri [nl] (wri ('' '' @ cmp) (r_io st5))\<rparr>)"

fun report_loop :: "opts \<Rightarrow> os \<Rightarrow> int \<Rightarrow> string list \<Rightarrow> report_state \<Rightarrow> report_state" where
  "report_loop opts os i [] st = st"
| "report_loop opts os i (cmp # comps) st =
     report_loop opts os (i + 1) comps (report_body opts os i cmp st)"

text \<open>The key and the summary: the argument of the last \<^verbatim>\<open>print\<close> of \<^verbatim>\<open>report\<close>.\<close>

definition legend :: "int \<Rightarrow> int \<Rightarrow> int \<Rightarrow> int \<Rightarrow> string \<times> string \<times> string \<times> string \<Rightarrow> string" where
  "legend k f d u cs =
     (case cs of (crb, cgb, crs, cuc) \<Rightarrow>
        [nl] @ ''Key:'' @ [nl]
        @ ''     '' @ cgb @ ''u'' @ crs @ cgb @ ''e   '' @ cgb @ ''u'' @ crs @ ''nique, ''
          @ cgb @ ''e'' @ crs @ ''xists'' @ [nl]
        @ ''     '' @ crb @ ''d'' @ crs @ cgb @ ''e   '' @ crb @ ''d'' @ crs @ ''uplicate, ''
          @ cgb @ ''e'' @ crs @ ''xists'' @ [nl]
        @ ''     '' @ cgb @ ''u'' @ crs @ cuc @ ''n   '' @ cgb @ ''u'' @ crs @ ''nique, does ''
          @ cuc @ ''n'' @ crs @ ''ot exist'' @ [nl]
        @ ''     '' @ crb @ ''d'' @ crs @ cuc @ ''n   '' @ crb @ ''d'' @ crs @ ''uplicate, does ''
          @ cuc @ ''n'' @ crs @ ''ot exist'' @ [nl]
        @ [nl] @ ''Summary:'' @ [nl]
        @ ''    Num Kept       : '' @ rjust 2 (str_int k) @ [nl]
        @ ''    Num Filtered   : '' @ rjust 2 (str_int f) @ [nl]
        @ ''    Num Duplicates : '' @ rjust 2 (str_int d) @ [nl]
        @ ''    Num Undefined  : '' @ rjust 2 (str_int u))"

definition report_init :: "io \<Rightarrow> report_state" where
  "report_init io = \<lparr>r_dups = Map.empty, numu = 0, numd = 0, numf = 0, numk = 0, r_io = io\<rparr>"

definition report :: "opts \<Rightarrow> os \<Rightarrow> string list \<Rightarrow> string \<Rightarrow> io \<Rightarrow> io" where
  "report opts os comps env io =
     (let st = report_loop opts os 1 comps (report_init (print (''Name: '' @ env) io))
      in print (legend (numk st) (numf st) (numd st) (numu st) (colors opts)) (r_io st))"

subsection \<open>\<^verbatim>\<open>process\<close> and \<^verbatim>\<open>main\<close>\<close>

fun list_loop :: "int \<Rightarrow> string list \<Rightarrow> io \<Rightarrow> io" where
  "list_loop i [] io = io"
| "list_loop i (cmp # comps) io =
     list_loop (i + 1) comps (print (rjust 2 (str_int i) @ '' '' @ cmp) io)"

text \<open>The first statement of \<^verbatim>\<open>process\<close>: the component list, or the error exit.\<close>

definition read_comps :: "opts \<Rightarrow> os \<Rightarrow> string \<Rightarrow> io \<Rightarrow> (error \<times> io) + string list" where
  "read_comps opts os env io =
     (case environ os env of
        None \<Rightarrow>
          if \<not> silent opts then
            err ''165'' (''environment variable not defined: '' @ env @ '', use -s to continue'') io
          else Inr []
      | Some v \<Rightarrow> Inr (str_split (pathsep os) v))"

definition process :: "opts \<Rightarrow> os \<Rightarrow> string \<Rightarrow> io \<Rightarrow> (error \<times> io) + io" where
  "process opts os env io =
     (case read_comps opts os env io of
        Inl e \<Rightarrow> Inl e
      | Inr comps \<Rightarrow>
          if list_report opts then Inr (report opts os comps env io)
          else
            (case process_loop opts os comps (Map.empty, []) of (dups, new_comps) \<Rightarrow>
               if list_opt opts then Inr (list_loop 1 comps io)
               else Inr (print (str_join [pathsep os] new_comps) io)))"

fun main_loop :: "opts \<Rightarrow> os \<Rightarrow> string list \<Rightarrow> io \<Rightarrow> (error \<times> io) + io" where
  "main_loop opts os [] io = Inr io"
| "main_loop opts os (env # envs) io =
     (case process opts os env io of
        Inl e \<Rightarrow> Inl e
      | Inr io' \<Rightarrow> main_loop opts os envs io')"

definition main :: "opts \<Rightarrow> os \<Rightarrow> io \<Rightarrow> (error \<times> io) + io" where
  "main opts os io = main_loop opts os (ENV_VARS opts) io"

text \<open>The exit status of the interpreter: that of \<^verbatim>\<open>sys.exit\<close>, or 0.\<close>

fun exit_code :: "(error \<times> io) + io \<Rightarrow> int" where
  "exit_code (Inl (SystemExit n, io)) = n"
| "exit_code (Inr io) = 0"

subsection \<open>The POSIX implementation of \<^verbatim>\<open>os.path\<close>\<close>

text \<open>
  \<^verbatim>\<open>posixpath.expanduser\<close>, \<^verbatim>\<open>posixpath.abspath\<close> (with \<^verbatim>\<open>join\<close> and
  \<^verbatim>\<open>normpath\<close>) and \<^verbatim>\<open>os.path.exists\<close> of the Python standard library, over
  what they read from the system: the environment, the working directory, the password
  database and the file system.
\<close>

record posix =
  px_environ :: "string \<rightharpoonup> string"
  px_getcwd :: string
  px_getpwuid :: "string option"
  px_getpwnam :: "string \<rightharpoonup> string"
  px_stat :: "string \<Rightarrow> bool"

definition startswith :: "string \<Rightarrow> string \<Rightarrow> bool" where
  "startswith s p = (take (length p) s = p)"

definition endswith :: "string \<Rightarrow> string \<Rightarrow> bool" where
  "endswith s p = (length p \<le> length s \<and> drop (length s - length p) s = p)"

definition rstrip :: "char \<Rightarrow> string \<Rightarrow> string" where
  "rstrip c s = rev (dropWhile (\<lambda>x. x = c) (rev s))"

definition posix_expanduser :: "posix \<Rightarrow> string \<Rightarrow> string" where
  "posix_expanduser px path =
     (if \<not> startswith path ''~'' then path
      else
        let i = 1 + length (takeWhile (\<lambda>c. c \<noteq> CHR ''/'') (drop 1 path)) in
        (case (if i = 1 then
                 (case px_environ px ''HOME'' of
                    None \<Rightarrow> px_getpwuid px
                  | Some h \<Rightarrow> Some h)
               else px_getpwnam px (take (i - 1) (drop 1 path))) of
           None \<Rightarrow> path
         | Some userhome \<Rightarrow>
             let r = rstrip CHR ''/'' userhome @ drop i path in
             if r = [] then ''/'' else r))"

definition posix_join :: "string \<Rightarrow> string \<Rightarrow> string" where
  "posix_join a b =
     (if startswith b ''/'' then b
      else if a = [] \<or> endswith a ''/'' then a @ b
      else a @ ''/'' @ b)"

fun normpath_loop :: "nat \<Rightarrow> string list \<Rightarrow> string list \<Rightarrow> string list" where
  "normpath_loop initial_slashes [] new_comps = new_comps"
| "normpath_loop initial_slashes (cmp # comps) new_comps =
     (if cmp = [] \<or> cmp = ''.'' then normpath_loop initial_slashes comps new_comps
      else if cmp \<noteq> ''..'' \<or> (initial_slashes = 0 \<and> new_comps = [])
                \<or> (new_comps \<noteq> [] \<and> last new_comps = ''..'')
      then normpath_loop initial_slashes comps (new_comps @ [cmp])
      else if new_comps \<noteq> [] then normpath_loop initial_slashes comps (butlast new_comps)
      else normpath_loop initial_slashes comps new_comps)"

definition initial_slashes_of :: "string \<Rightarrow> nat" where
  "initial_slashes_of path =
     (if startswith path ''/'' then
        (if startswith path ''//'' \<and> \<not> startswith path ''///'' then 2 else 1)
      else 0)"

definition posix_normpath :: "string \<Rightarrow> string" where
  "posix_normpath path =
     (if path = [] then ''.''
      else
        let initial_slashes = initial_slashes_of path;
            new_comps = normpath_loop initial_slashes (str_split CHR ''/'' path) [];
            path' = replicate initial_slashes CHR ''/'' @ str_join ''/'' new_comps
        in if path' = [] then ''.'' else path')"

definition posix_abspath :: "posix \<Rightarrow> string \<Rightarrow> string" where
  "posix_abspath px path =
     posix_normpath (if \<not> startswith path ''/'' then posix_join (px_getcwd px) path else path)"

definition posix_os :: "posix \<Rightarrow> os" where
  "posix_os px =
     \<lparr>environ = px_environ px, pathsep = CHR '':'',
      path_expanduser = posix_expanduser px, path_abspath = posix_abspath px,
      path_exists = px_stat px\<rparr>"

subsection \<open>The survivors of the shell output, as the specification words them\<close>


subsection \<open>A sample platform\<close>

definition ex_posix :: posix where
  "ex_posix =
     \<lparr>px_environ = [''HOME'' \<mapsto> ''/home/u'', ''PATH'' \<mapsto> ''/usr/bin:/usr/bin:/nonexistent'',
                     ''EMPTY'' \<mapsto> [], ''A'' \<mapsto> ''/a:/a''],
      px_getcwd = ''/work'', px_getpwuid = Some ''/home/u'', px_getpwnam = Map.empty,
      px_stat = (\<lambda>p. p \<in> set [''/'', ''/usr'', ''/usr/bin'', ''/home'', ''/home/u'', ''/work''])\<rparr>"

definition ex_os :: os where
  "ex_os = posix_os ex_posix"

definition ex_opts :: opts where
  "ex_opts =
     \<lparr>color = False, list_opt = False, list_report = False, silent = False,
      undefined_opt = False, ENV_VARS = [''PATH'']\<rparr>"

definition ex_io :: io where
  "ex_io = \<lparr>stdout = [], stderr = []\<rparr>"

section \<open>Properties\<close>

subsection \<open>The seen-set\<close>

lemma dom_is_dup: "dom (snd (is_dup os dups c)) = insert (get_canon os c) (dom dups)"
  by (auto simp: is_dup_def Let_def)

lemma fst_is_dup: "fst (is_dup os dups c) = (get_canon os c \<in> dom dups)"
  by (simp add: is_dup_def Let_def)

lemma dom_process_loop:
  "dom (fst (process_loop opts os comps (dups, acc))) = dom dups \<union> get_canon os ` set comps"
proof (induction comps arbitrary: dups acc)
  case Nil
  show ?case by simp
next
  case (Cons c comps)
  obtain d dups' where step: "is_dup os dups c = (d, dups')"
    by (cases "is_dup os dups c")
  have "dom dups' = insert (get_canon os c) (dom dups)"
    using dom_is_dup [of os dups c] step by simp
  then show ?case
    using step Cons.IH by (cases d) auto
qed

lemma process_loop_append:
  "process_loop opts os (xs @ ys) st = process_loop opts os ys (process_loop opts os xs st)"
proof (induction xs arbitrary: st)
  case Nil
  show ?case by (cases st) simp
next
  case (Cons x xs)
  obtain dups acc where st: "st = (dups, acc)" by (cases st)
  obtain d dups' where step: "is_dup os dups x = (d, dups')" by (cases "is_dup os dups x")
  show ?case using Cons.IH st step by (cases d) simp_all
qed

lemma r_dups_report_body: "r_dups (report_body opts os i c st) = snd (is_dup os (r_dups st) c)"
  by (simp add: report_body_def Let_def split: prod.splits)

lemma dom_report_loop:
  "dom (r_dups (report_loop opts os i comps st)) = dom (r_dups st) \<union> get_canon os ` set comps"
proof (induction comps arbitrary: st i)
  case Nil
  show ?case by simp
next
  case (Cons c comps)
  show ?case
    by (simp add: Cons.IH r_dups_report_body dom_is_dup)
qed

subsection \<open>Canonical keys on the sample platform\<close>

lemma ex_canon_usr_bin: "get_canon ex_os ''/usr/bin'' = ''/usr/bin''"
  by code_simp

lemma ex_canon_usr_bin_slash: "get_canon ex_os ''/usr/bin/'' = ''/usr/bin''"
  by code_simp

lemma ex_canon_nonexistent: "get_canon ex_os ''/nonexistent'' = ''/nonexistent''"
  by code_simp

subsection \<open>C10: the seen-set invariant of \<^verbatim>\<open>is_dup\<close>\<close>

text \<open>
  C10. A call of \<^verbatim>\<open>is_dup\<close> on a component answers true exactly when the
  canonical key of the component was in the dictionary before the call; after the call
  the key is in the dictionary; no key is ever lost; and so, started on the empty
  dictionary, both loops of the script (the filter of \<^verbatim>\<open>process\<close> and the
  report) end with exactly the canonical keys of the components they visited.
\<close>

theorem is_dup_seen_set:
  "fst (is_dup os dups c) = (get_canon os c \<in> dom dups)
   \<and> get_canon os c \<in> dom (snd (is_dup os dups c))
   \<and> dom dups \<subseteq> dom (snd (is_dup os dups c))
   \<and> dom (fst (process_loop opts os comps (Map.empty, []))) = get_canon os ` set comps
   \<and> dom (r_dups (report_loop opts os 1 comps (report_init io))) = get_canon os ` set comps"
proof -
  have a: "fst (is_dup os dups c) = (get_canon os c \<in> dom dups)"
    by (rule fst_is_dup)
  have b: "dom (snd (is_dup os dups c)) = insert (get_canon os c) (dom dups)"
    by (rule dom_is_dup)
  have c: "dom (fst (process_loop opts os comps (Map.empty, []))) = get_canon os ` set comps"
    by (simp add: dom_process_loop)
  have d: "dom (r_dups (report_loop opts os 1 comps (report_init io))) = get_canon os ` set comps"
    by (simp add: dom_report_loop report_init_def)
  from a b c d show ?thesis by blast
qed

text \<open>
  On the sample platform: \<^verbatim>\<open>/usr/bin/\<close> is a duplicate once \<^verbatim>\<open>/usr/bin\<close>
  has been seen, and a pass over three components leaves their two keys.
\<close>

theorem is_dup_seen_set_witness:
  "fst (is_dup ex_os [''/usr/bin'' \<mapsto> True] ''/usr/bin/'')
   \<and> ''/usr/bin'' \<in> dom (snd (is_dup ex_os [''/usr/bin'' \<mapsto> True] ''/usr/bin/''))
   \<and> dom (fst (process_loop ex_opts ex_os [''/usr/bin'', ''/usr/bin/'', ''/nonexistent'']
         (Map.empty, []))) = {''/usr/bin'', ''/nonexistent''}
   \<and> dom (r_dups (report_loop ex_opts ex_os 1 [''/usr/bin'', ''/usr/bin/'', ''/nonexistent'']
         (report_init ex_io))) = {''/usr/bin'', ''/nonexistent''}"
  using is_dup_seen_set [of ex_os "[''/usr/bin'' \<mapsto> True]" "''/usr/bin/''" ex_opts
      "[''/usr/bin'', ''/usr/bin/'', ''/nonexistent'']" ex_io]
  by (simp add: ex_canon_usr_bin ex_canon_usr_bin_slash ex_canon_nonexistent)

lemma numk_report_body:
  "numk (report_body opts os i c st) =
     numk st + (if \<not> fst (is_dup os (r_dups st) c) \<or> exists os c then 1 else 0)"
  by (simp add: report_body_def Let_def split: prod.splits)

lemma upt_0_Suc_map: "[0..<Suc n] = 0 # map Suc [0..<n]"
  by (simp add: upt_conv_Cons map_Suc_upt del: upt_Suc)

lemma numk_report_loop:
  "numk (report_loop opts os i comps st) =
     numk st + int (length (filter
       (\<lambda>j. get_canon os (comps ! j) \<notin> dom (r_dups st) \<union> get_canon os ` set (take j comps)
             \<or> exists os (comps ! j)) [0..<length comps]))"
proof (induction comps arbitrary: st i)
  case Nil
  show ?case by simp
next
  case (Cons c comps)
  have len: "length (c # comps) = Suc (length comps)" by simp
  show ?case
    unfolding len upt_0_Suc_map
    by (simp add: Cons.IH numk_report_body r_dups_report_body dom_is_dup fst_is_dup
          filter_map comp_def conj_ac del: upt_Suc)
qed

subsection \<open>C1: the kept rule of the report\<close>

text \<open>
  C1. In report mode a component adds one to \<^verbatim>\<open>numk\<close> exactly when
  \<^verbatim>\<open>is_dup\<close> does not call it a duplicate at its visit or its canonical key
  exists on disk, and it adds one only, also when both hold. Over the whole list,
  \<^verbatim>\<open>numk\<close> is therefore the number of positions whose key no earlier position
  has or whose key exists. \<^verbatim>\<open>report\<close> prints that number as the kept counter
  of its summary, after the lines of the loop, and \<^verbatim>\<open>process\<close> under
  \<^verbatim>\<open>-L\<close> runs \<^verbatim>\<open>report\<close> on the components of the variable's value.
\<close>

theorem report_kept_rule:
  "numk (report_body opts os i c st) =
     numk st + (if \<not> fst (is_dup os (r_dups st) c) \<or> exists os c then 1 else 0)
   \<and> numk (report_loop opts os 1 comps (report_init io)) =
       int (length (filter
         (\<lambda>j. get_canon os (comps ! j) \<notin> get_canon os ` set (take j comps)
               \<or> exists os (comps ! j)) [0..<length comps]))
   \<and> report opts os comps env io =
       (let st = report_loop opts os 1 comps (report_init (print (''Name: '' @ env) io)) in
        print (legend
                 (int (length (filter
                    (\<lambda>j. get_canon os (comps ! j) \<notin> get_canon os ` set (take j comps)
                          \<or> exists os (comps ! j)) [0..<length comps])))
                 (numf st) (numd st) (numu st) (colors opts))
          (r_io st))
   \<and> (list_report opts \<and> environ os env = Some v \<longrightarrow>
         process opts os env io = Inr (report opts os (str_split (pathsep os) v) env io))"
proof -
  have a: "numk (report_body opts os i c st) =
     numk st + (if \<not> fst (is_dup os (r_dups st) c) \<or> exists os c then 1 else 0)"
    by (rule numk_report_body)
  have b: "numk (report_loop opts os 1 comps (report_init io1)) =
       int (length (filter
         (\<lambda>j. get_canon os (comps ! j) \<notin> get_canon os ` set (take j comps)
               \<or> exists os (comps ! j)) [0..<length comps]))" for io1
    by (simp add: numk_report_loop report_init_def)
  have c: "report opts os comps env io =
       (let st = report_loop opts os 1 comps (report_init (print (''Name: '' @ env) io)) in
        print (legend
                 (int (length (filter
                    (\<lambda>j. get_canon os (comps ! j) \<notin> get_canon os ` set (take j comps)
                          \<or> exists os (comps ! j)) [0..<length comps])))
                 (numf st) (numd st) (numu st) (colors opts))
          (r_io st))"
    unfolding report_def Let_def by (simp only: b)
  have d: "list_report opts \<and> environ os env = Some v \<longrightarrow>
         process opts os env io = Inr (report opts os (str_split (pathsep os) v) env io)"
    by (simp add: process_def read_comps_def)
  from a b [of io] c d show ?thesis by blast
qed

text \<open>
  Unique and existing, duplicate and existing, unique and missing are kept; duplicate and
  missing is not. The report of \<^verbatim>\<open>PATH\<close> on the sample platform keeps its three
  components.
\<close>

theorem report_kept_rule_witness:
  "numk (report_loop ex_opts ex_os 1 [''/usr/bin'', ''/usr/bin/'', ''/nonexistent'', ''/nonexistent'']
      (report_init ex_io)) = 3
   \<and> process (ex_opts\<lparr>list_report := True\<rparr>) ex_os ''PATH'' ex_io =
       Inr \<lparr>stdout = ''Name: PATH'' @ [nl]
              @ ''   1 ue /usr/bin'' @ [nl]
              @ ''   2 de /usr/bin'' @ [nl]
              @ ''   3 un /nonexistent'' @ [nl]
              @ [nl] @ ''Key:'' @ [nl]
              @ ''     ue   unique, exists'' @ [nl]
              @ ''     de   duplicate, exists'' @ [nl]
              @ ''     un   unique, does not exist'' @ [nl]
              @ ''     dn   duplicate, does not exist'' @ [nl]
              @ [nl] @ ''Summary:'' @ [nl]
              @ ''    Num Kept       :  3'' @ [nl]
              @ ''    Num Filtered   :  1'' @ [nl]
              @ ''    Num Duplicates :  1'' @ [nl]
              @ ''    Num Undefined  :  1'' @ [nl], stderr = []\<rparr>"
proof -
  let ?comps = "[''/usr/bin'', ''/usr/bin/'', ''/nonexistent'', ''/nonexistent'']"
  let ?o = "ex_opts\<lparr>list_report := True\<rparr>"
  let ?v = "''/usr/bin:/usr/bin:/nonexistent''"
  have e: "int (length (filter
         (\<lambda>j. get_canon ex_os (?comps ! j) \<notin> get_canon ex_os ` set (take j ?comps)
               \<or> exists ex_os (?comps ! j)) [0..<length ?comps])) = 3"
    by code_simp
  have "numk (report_loop ex_opts ex_os 1 ?comps (report_init ex_io)) =
       int (length (filter
         (\<lambda>j. get_canon ex_os (?comps ! j) \<notin> get_canon ex_os ` set (take j ?comps)
               \<or> exists ex_os (?comps ! j)) [0..<length ?comps]))"
    using report_kept_rule [of ex_opts ex_os 1 "[]" "report_init ex_io" ?comps ex_io]
    by blast
  with e have k: "numk (report_loop ex_opts ex_os 1 ?comps (report_init ex_io)) = 3"
    by (simp only:)
  have h1: "list_report ?o" by (simp add: ex_opts_def)
  have h2: "environ ex_os ''PATH'' = Some ?v" by code_simp
  have p: "process ?o ex_os ''PATH'' ex_io =
      Inr (report ?o ex_os (str_split (pathsep ex_os) ?v) ''PATH'' ex_io)"
    using report_kept_rule [of ?o ex_os 1 "[]" "report_init ex_io" "[]" ex_io "''PATH''" ?v] h1 h2
    by blast
  have r: "report ?o ex_os (str_split (pathsep ex_os) ?v) ''PATH'' ex_io =
       \<lparr>stdout = ''Name: PATH'' @ [nl]
              @ ''   1 ue /usr/bin'' @ [nl]
              @ ''   2 de /usr/bin'' @ [nl]
              @ ''   3 un /nonexistent'' @ [nl]
              @ [nl] @ ''Key:'' @ [nl]
              @ ''     ue   unique, exists'' @ [nl]
              @ ''     de   duplicate, exists'' @ [nl]
              @ ''     un   unique, does not exist'' @ [nl]
              @ ''     dn   duplicate, does not exist'' @ [nl]
              @ [nl] @ ''Summary:'' @ [nl]
              @ ''    Num Kept       :  3'' @ [nl]
              @ ''    Num Filtered   :  1'' @ [nl]
              @ ''    Num Duplicates :  1'' @ [nl]
              @ ''    Num Undefined  :  1'' @ [nl], stderr = []\<rparr>"
    by code_simp
  from k p show ?thesis unfolding r by blast
qed

lemma snd_process_loop:
  "snd (process_loop opts os comps (dups, acc)) =
     acc @ map (\<lambda>i. comps ! i)
       (filter (\<lambda>i. get_canon os (comps ! i) \<notin> dom dups \<union> get_canon os ` set (take i comps)
                    \<and> (undefined_opt opts \<longrightarrow> exists os (comps ! i)))
          [0..<length comps])"
proof (induction comps arbitrary: dups acc)
  case Nil
  show ?case by simp
next
  case (Cons c comps)
  obtain d dups' where step: "is_dup os dups c = (d, dups')"
    by (cases "is_dup os dups c")
  have d: "d = (get_canon os c \<in> dom dups)"
    using fst_is_dup [of os dups c] step by simp
  have dups': "dom dups' = insert (get_canon os c) (dom dups)"
    using dom_is_dup [of os dups c] step by simp
  have len: "length (c # comps) = Suc (length comps)" by simp
  show ?case
    unfolding len upt_0_Suc_map
    using step d dups'
    by (cases d) (simp_all add: Cons.IH filter_map comp_def conj_ac del: upt_Suc)
qed




subsection \<open>C4: the shell output\<close>




lemma key_in_take:
  assumes "n \<le> length comps"
  shows "(x \<in> f ` set (take n comps)) = (\<exists>k<n. f (comps ! k) = x)"
proof -
  have "set (take n comps) = (\<lambda>k. comps ! k) ` {0..<n}"
    using assms by (simp add: nth_image)
  then show ?thesis by auto
qed

subsection \<open>C3: first occurrence wins\<close>

text \<open>
  C3, as amended. The dictionary that \<^verbatim>\<open>is_dup\<close> consults at position \<open>n\<close> is
  the one the loop has built over the \<open>n\<close> components before it
  (\<open>process_loop_append\<close>), and holds their keys only. For two positions \<open>i < j\<close>
  with equal canonical keys, the component at \<open>j\<close> is a duplicate; the component at
  \<open>i\<close> is a duplicate exactly when a position before \<open>i\<close> has the same key, so the
  first occurrence of a key is never one.
\<close>

theorem first_occurrence_wins:
  assumes "i < j" and "j < length comps"
    and "get_canon os (comps ! i) = get_canon os (comps ! j)"
  shows "fst (is_dup os (fst (process_loop opts os (take j comps) (Map.empty, []))) (comps ! j))
     \<and> fst (is_dup os (fst (process_loop opts os (take i comps) (Map.empty, []))) (comps ! i))
         = (\<exists>k<i. get_canon os (comps ! k) = get_canon os (comps ! i))
     \<and> dom (fst (process_loop opts os (take j comps) (Map.empty, []))) =
         get_canon os ` set (take j comps)"
proof -
  have seen: "\<And>n. dom (fst (process_loop opts os (take n comps) (Map.empty, []))) =
      get_canon os ` set (take n comps)"
    by (simp add: dom_process_loop)
  have a: "get_canon os (comps ! j) \<in> get_canon os ` set (take j comps)"
    using assms key_in_take [of j comps "get_canon os (comps ! j)" "get_canon os"] by auto
  have b: "(get_canon os (comps ! i) \<in> get_canon os ` set (take i comps)) =
      (\<exists>k<i. get_canon os (comps ! k) = get_canon os (comps ! i))"
    using assms(1,2) by (intro key_in_take) simp
  show ?thesis
    using a b by (simp add: fst_is_dup seen)
qed

text \<open>\<^verbatim>\<open>/usr/bin\<close> first, then \<^verbatim>\<open>/usr/bin/\<close>: the second is the duplicate.\<close>

theorem first_occurrence_wins_witness:
  "fst (is_dup ex_os (fst (process_loop ex_opts ex_os (take 1 [''/usr/bin'', ''/usr/bin/''])
       (Map.empty, []))) ([''/usr/bin'', ''/usr/bin/''] ! 1))
   \<and> fst (is_dup ex_os (fst (process_loop ex_opts ex_os (take 0 [''/usr/bin'', ''/usr/bin/''])
       (Map.empty, []))) ([''/usr/bin'', ''/usr/bin/''] ! 0)) = False"
proof -
  let ?comps = "[''/usr/bin'', ''/usr/bin/'']"
  have h1: "(0::nat) < 1" by simp
  have h2: "1 < length ?comps" by simp
  have h3: "get_canon ex_os (?comps ! 0) = get_canon ex_os (?comps ! 1)"
    by (simp add: ex_canon_usr_bin ex_canon_usr_bin_slash)
  show ?thesis
    using first_occurrence_wins [OF h1 h2 h3, of ex_opts] by simp
qed

text \<open>
  C3 as stated fails when a key occurs three times: the second occurrence stands before
  the third, has the same key, and is itself classified a duplicate.
\<close>

theorem later_occurrence_counterexample:
  "(1::nat) < 2 \<and> 2 < length [''/usr/bin'', ''/usr/bin/'', ''/usr/bin'']
   \<and> get_canon ex_os ([''/usr/bin'', ''/usr/bin/'', ''/usr/bin''] ! 1) =
       get_canon ex_os ([''/usr/bin'', ''/usr/bin/'', ''/usr/bin''] ! 2)
   \<and> fst (is_dup ex_os (fst (process_loop ex_opts ex_os
        (take 1 [''/usr/bin'', ''/usr/bin/'', ''/usr/bin'']) (Map.empty, [])))
        ([''/usr/bin'', ''/usr/bin/'', ''/usr/bin''] ! 1))"
  by code_simp

lemma acc_in_process_loop: "set acc \<subseteq> set (snd (process_loop opts os comps (dups, acc)))"
  by (simp add: snd_process_loop)

lemma process_loop_in_comps:
  "set (snd (process_loop opts os comps (dups, acc))) \<subseteq> set acc \<union> set comps"
  by (auto simp: snd_process_loop)

lemma keys_covered:
  assumes "\<not> undefined_opt opts"
  shows "get_canon os ` set comps \<subseteq>
     dom dups \<union> get_canon os ` set (snd (process_loop opts os comps (dups, acc)))"
proof (induction comps arbitrary: dups acc)
  case Nil
  show ?case by simp
next
  case (Cons c comps)
  obtain d dups' where step: "is_dup os dups c = (d, dups')"
    by (cases "is_dup os dups c")
  have d: "d = (get_canon os c \<in> dom dups)"
    using fst_is_dup [of os dups c] step by simp
  have dups': "dom dups' = insert (get_canon os c) (dom dups)"
    using dom_is_dup [of os dups c] step by simp
  show ?case
  proof (cases d)
    case True
    then have run: "process_loop opts os (c # comps) (dups, acc) = process_loop opts os comps (dups', acc)"
      using step by simp
    have "dom dups' = dom dups" using True d dups' by auto
    then have "get_canon os ` set comps \<subseteq>
        dom dups \<union> get_canon os ` set (snd (process_loop opts os comps (dups', acc)))"
      using Cons.IH [of dups' acc] by simp
    moreover have "get_canon os c \<in> dom dups" using True d by simp
    ultimately show ?thesis unfolding run by auto
  next
    case False
    then have run: "process_loop opts os (c # comps) (dups, acc) =
        process_loop opts os comps (dups', acc @ [c])"
      using step assms by simp
    have "c \<in> set (snd (process_loop opts os comps (dups', acc @ [c])))"
      using acc_in_process_loop [of "acc @ [c]" opts os comps dups'] by simp
    then have "get_canon os c \<in> get_canon os ` set (snd (process_loop opts os comps (dups', acc @ [c])))"
      by (rule imageI)
    moreover have "get_canon os ` set comps \<subseteq> insert (get_canon os c) (dom dups)
        \<union> get_canon os ` set (snd (process_loop opts os comps (dups', acc @ [c])))"
      using Cons.IH [of dups' "acc @ [c]"] dups' by simp
    ultimately show ?thesis unfolding run by auto
  qed
qed

subsection \<open>C9: deduplication loses no key\<close>

text \<open>
  C9. Without \<^verbatim>\<open>-u\<close>, the canonical keys of the components that survive the
  loop of \<^verbatim>\<open>process\<close> are exactly the canonical keys of the input list.
\<close>

theorem shell_output_keeps_keys:
  assumes "\<not> undefined_opt opts"
  shows "get_canon os ` set (snd (process_loop opts os comps (Map.empty, []))) =
     get_canon os ` set comps"
proof
  show "get_canon os ` set (snd (process_loop opts os comps (Map.empty, []))) \<subseteq>
      get_canon os ` set comps"
    using process_loop_in_comps [of opts os comps Map.empty "[]"] by auto
  show "get_canon os ` set comps \<subseteq>
      get_canon os ` set (snd (process_loop opts os comps (Map.empty, [])))"
    using keys_covered [OF assms, of os comps Map.empty "[]"] by simp
qed

text \<open>Three components with two keys leave two components with the same two keys.\<close>

theorem shell_output_keeps_keys_witness:
  "snd (process_loop ex_opts ex_os [''/usr/bin'', ''/usr/bin/'', ''/nonexistent''] (Map.empty, []))
     = [''/usr/bin'', ''/nonexistent'']
   \<and> get_canon ex_os ` set (snd (process_loop ex_opts ex_os
         [''/usr/bin'', ''/usr/bin/'', ''/nonexistent''] (Map.empty, []))) =
       {''/usr/bin'', ''/nonexistent''}"
proof -
  have h: "\<not> undefined_opt ex_opts" by (simp add: ex_opts_def)
  have r: "snd (process_loop ex_opts ex_os [''/usr/bin'', ''/usr/bin/'', ''/nonexistent'']
      (Map.empty, [])) = [''/usr/bin'', ''/nonexistent'']"
    by code_simp
  show ?thesis
    using shell_output_keeps_keys [OF h, of ex_os "[''/usr/bin'', ''/usr/bin/'', ''/nonexistent'']"] r
    by (simp add: ex_canon_usr_bin ex_canon_usr_bin_slash ex_canon_nonexistent)
qed

lemma numd_report_body:
  "numd (report_body opts os i c st) = numd st + (if fst (is_dup os (r_dups st) c) then 1 else 0)"
  by (simp add: report_body_def Let_def split: prod.splits)

lemma numu_report_body:
  "numu (report_body opts os i c st) = numu st + (if exists os c then 0 else 1)"
  by (simp add: report_body_def Let_def split: prod.splits)

lemma numf_report_body:
  "numf (report_body opts os i c st) =
     numf st + (if fst (is_dup os (r_dups st) c) then 1 else 0)
       + (if \<not> exists os c \<and> undefined_opt opts then 1 else 0)"
  by (simp add: report_body_def Let_def split: prod.splits)

lemma numf_report_loop:
  "numf (report_loop opts os i comps st) - numf st =
     (numd (report_loop opts os i comps st) - numd st)
       + (if undefined_opt opts then numu (report_loop opts os i comps st) - numu st else 0)"
proof (induction comps arbitrary: st i)
  case Nil
  show ?case by simp
next
  case (Cons c comps)
  show ?case
    using Cons.IH [of "i + 1" "report_body opts os i c st"]
    by (cases "undefined_opt opts"; cases "exists os c")
       (simp_all add: numf_report_body numd_report_body numu_report_body)
qed

subsection \<open>C2: the filtered counter of the report\<close>

text \<open>
  What the loop does (\<open>numf_report_loop\<close>): \<^verbatim>\<open>numf\<close> grows by one for every
  duplicate and, under \<^verbatim>\<open>-u\<close>, by one more for every missing component, whether
  or not that component is a duplicate.

  C2. For the value \<^verbatim>\<open>/a:/a\<close> with \<^verbatim>\<open>/a\<close> missing, the report under
  \<^verbatim>\<open>-u\<close> ends with \<^verbatim>\<open>numf = 3\<close> for two components (one duplicate, two
  missing): the second component is counted twice. Without \<^verbatim>\<open>-u\<close> the counter
  is 1, and the filter of \<^verbatim>\<open>process\<close> under \<^verbatim>\<open>-u\<close> drops the two
  components once each.
\<close>

theorem report_numf_counts_twice:
  "environ ex_os ''A'' = Some ''/a:/a''
   \<and> str_split (pathsep ex_os) ''/a:/a'' = [''/a'', ''/a'']
   \<and> exists ex_os ''/a'' = False
   \<and> numf (report_loop (ex_opts\<lparr>list_report := True, undefined_opt := True\<rparr>) ex_os 1
        [''/a'', ''/a''] (report_init ex_io)) = 3
   \<and> numd (report_loop (ex_opts\<lparr>list_report := True, undefined_opt := True\<rparr>) ex_os 1
        [''/a'', ''/a''] (report_init ex_io)) = 1
   \<and> numu (report_loop (ex_opts\<lparr>list_report := True, undefined_opt := True\<rparr>) ex_os 1
        [''/a'', ''/a''] (report_init ex_io)) = 2
   \<and> numf (report_loop (ex_opts\<lparr>list_report := True\<rparr>) ex_os 1
        [''/a'', ''/a''] (report_init ex_io)) = 1
   \<and> snd (process_loop (ex_opts\<lparr>undefined_opt := True\<rparr>) ex_os [''/a'', ''/a'']
        (Map.empty, [])) = []"
  by code_simp

lemma process_missing:
  assumes "environ os env = None" and "\<not> silent opts"
  shows "process opts os env io =
     Inl (SystemExit 1,
          \<lparr>stdout = stdout io,
           stderr = stderr io @ err_text ''165''
             (''environment variable not defined: '' @ env @ '', use -s to continue'')\<rparr>)"
  using assms by (simp add: process_def read_comps_def err_def)

lemma process_exit_status: "process opts os env io = Inl (e, io') \<Longrightarrow> e = SystemExit 1"
  by (auto simp: process_def read_comps_def err_def split: option.splits if_splits prod.splits)

lemma main_loop_exit_status: "main_loop opts os envs io = Inl (e, io') \<Longrightarrow> e = SystemExit 1"
proof (induction envs arbitrary: io)
  case Nil
  then show ?case by simp
next
  case (Cons env envs)
  show ?case
  proof (cases "process opts os env io")
    case (Inl x)
    then show ?thesis using Cons.prems process_exit_status [of opts os env io e io'] by simp
  next
    case (Inr io1)
    then show ?thesis using Cons.prems Cons.IH [of io1] by simp
  qed
qed

lemma main_loop_append:
  "main_loop opts os (xs @ ys) io =
     (case main_loop opts os xs io of Inl e \<Rightarrow> Inl e | Inr io' \<Rightarrow> main_loop opts os ys io')"
  by (induction xs arbitrary: io) (simp_all split: sum.splits)

lemma stdout_ex_io: "stdout ex_io = []"
  by (simp add: ex_io_def)

lemma stderr_ex_io: "stderr ex_io = []"
  by (simp add: ex_io_def)

subsection \<open>C7: a missing variable without \<^verbatim>\<open>-s\<close>\<close>

text \<open>
  C7. When the variable is not in the environment and silent mode is off,
  \<^verbatim>\<open>process\<close> exits with status 1, having written to standard error the
  formatted message (the red \<^verbatim>\<open>ERROR:165:\<close> prefix, then the text that names
  the variable and points to \<^verbatim>\<open>-s\<close>, then the colour reset and a newline) and
  nothing to standard output; the loop of \<^verbatim>\<open>main\<close> stops there, whatever
  names follow; and \<^verbatim>\<open>main\<close> itself, on a command line that holds the name,
  ends with exit status 1, standard output being what the names before it printed.
\<close>

theorem missing_variable_is_fatal:
  assumes "environ os env = None" and "\<not> silent opts"
  shows "process opts os env io =
      Inl (SystemExit 1,
          \<lparr>stdout = stdout io,
           stderr = stderr io @ CHR 0x1B # ''[31;1m'' @ ''ERROR:'' @ ''165'' @ '':'' @ CHR 0x1B # ''[0;31m''
               @ '' '' @ ''environment variable not defined: '' @ env
               @ '', use -s to continue'' @ CHR 0x1B # ''[0m'' @ [CHR 0x0A]\<rparr>)
    \<and> main_loop opts os (env # envs) io = process opts os env io
    \<and> main_loop opts os (pre @ env # envs) io = main_loop opts os (pre @ [env]) io
    \<and> exit_code (main_loop opts os (pre @ env # envs) io) = 1
    \<and> (ENV_VARS opts = pre @ env # envs \<longrightarrow>
          main opts os io = main_loop opts os (pre @ [env]) io
          \<and> exit_code (main opts os io) = 1)
    \<and> (ENV_VARS opts = pre @ env # envs \<and> main_loop opts os pre io = Inr io1 \<longrightarrow>
          main opts os io =
            Inl (SystemExit 1,
              \<lparr>stdout = stdout io1,
               stderr = stderr io1 @ CHR 0x1B # ''[31;1m'' @ ''ERROR:'' @ ''165'' @ '':'' @ CHR 0x1B # ''[0;31m''
               @ '' '' @ ''environment variable not defined: '' @ env
               @ '', use -s to continue'' @ CHR 0x1B # ''[0m'' @ [CHR 0x0A]\<rparr>))"
proof -
  have q: "process opts os env io2 =
      Inl (SystemExit 1,
          \<lparr>stdout = stdout io2,
           stderr = stderr io2 @ CHR 0x1B # ''[31;1m'' @ ''ERROR:'' @ ''165'' @ '':'' @ CHR 0x1B # ''[0;31m''
               @ '' '' @ ''environment variable not defined: '' @ env
               @ '', use -s to continue'' @ CHR 0x1B # ''[0m'' @ [CHR 0x0A]\<rparr>)" for io2
    using process_missing [OF assms, of io2] by (simp add: err_text_def esc_def nl_def)
  note p = process_missing [OF assms]
  have a: "main_loop opts os (env # envs) io2 = process opts os env io2" for io2 envs
    by (simp add: p)
  have b: "main_loop opts os (pre @ env # envs) io = main_loop opts os (pre @ [env]) io"
    by (simp only: main_loop_append [of opts os pre] a)
  have "\<exists>io'. main_loop opts os (pre @ [env]) io = Inl (SystemExit 1, io')"
  proof (cases "main_loop opts os pre io")
    case (Inl x)
    obtain e io' where x: "x = (e, io')" by (cases x)
    then have "e = SystemExit 1" using Inl main_loop_exit_status by blast
    then show ?thesis using Inl x by (simp add: main_loop_append)
  next
    case (Inr io2)
    then show ?thesis by (simp add: main_loop_append p)
  qed
  then have c: "exit_code (main_loop opts os (pre @ env # envs) io) = 1"
    unfolding b by auto
  have d: "ENV_VARS opts = pre @ env # envs \<longrightarrow>
          main opts os io = main_loop opts os (pre @ [env]) io
          \<and> exit_code (main opts os io) = 1"
    using b c by (simp add: main_def)
  have e: "ENV_VARS opts = pre @ env # envs \<and> main_loop opts os pre io = Inr io1 \<longrightarrow>
          main opts os io = process opts os env io1"
    by (simp add: main_def main_loop_append p)
  from q [of io] a [of envs io] b c d e q [of io1] show ?thesis by simp
qed

text \<open>
  \<^verbatim>\<open>NOPE\<close> is not defined on the sample platform: a run over \<^verbatim>\<open>PATH\<close>,
  \<^verbatim>\<open>NOPE\<close>, \<^verbatim>\<open>PATH\<close> prints the line of the first \<^verbatim>\<open>PATH\<close> and
  exits with status 1 and the message about \<^verbatim>\<open>NOPE\<close>.
\<close>

theorem missing_variable_is_fatal_witness:
  "process ex_opts ex_os ''NOPE'' ex_io =
     Inl (SystemExit 1,
       \<lparr>stdout = [],
        stderr = CHR 0x1B # ''[31;1m'' @ ''ERROR:'' @ ''165'' @ '':'' @ CHR 0x1B # ''[0;31m''
               @ '' '' @ ''environment variable not defined: '' @ ''NOPE''
               @ '', use -s to continue'' @ CHR 0x1B # ''[0m'' @ [CHR 0x0A]\<rparr>)
   \<and> main (ex_opts\<lparr>ENV_VARS := [''PATH''] @ ''NOPE'' # [''PATH'']\<rparr>) ex_os ex_io =
       Inl (SystemExit 1,
         \<lparr>stdout = ''/usr/bin:/nonexistent'' @ [nl],
          stderr = CHR 0x1B # ''[31;1m'' @ ''ERROR:'' @ ''165'' @ '':'' @ CHR 0x1B # ''[0;31m''
               @ '' '' @ ''environment variable not defined: '' @ ''NOPE''
               @ '', use -s to continue'' @ CHR 0x1B # ''[0m'' @ [CHR 0x0A]\<rparr>)
   \<and> exit_code (main (ex_opts\<lparr>ENV_VARS := [''PATH''] @ ''NOPE'' # [''PATH'']\<rparr>) ex_os ex_io) = 1"
proof -
  let ?o = "ex_opts\<lparr>ENV_VARS := [''PATH''] @ ''NOPE'' # [''PATH'']\<rparr>"
  let ?io1 = "\<lparr>stdout = ''/usr/bin:/nonexistent'' @ [nl], stderr = []\<rparr>"
  have h1: "environ ex_os ''NOPE'' = None" by code_simp
  have h2: "\<not> silent ex_opts" by (simp add: ex_opts_def)
  have h3: "\<not> silent ?o" by (simp add: ex_opts_def)
  have h4: "ENV_VARS ?o = [''PATH''] @ ''NOPE'' # [''PATH'']" by simp
  have h5: "main_loop ?o ex_os [''PATH''] ex_io = Inr ?io1" by code_simp
  have s1: "stdout ?io1 = ''/usr/bin:/nonexistent'' @ [nl]" by simp
  have s2: "stderr ?io1 = []" by simp
  note t = missing_variable_is_fatal [OF h1 h2, of ex_io "[]" "[]" ex_io]
  note u = missing_variable_is_fatal [OF h1 h3, of ex_io "[''PATH'']" "[''PATH'']" ?io1]
  from t have a: "process ex_opts ex_os ''NOPE'' ex_io =
     Inl (SystemExit 1,
       \<lparr>stdout = [],
        stderr = CHR 0x1B # ''[31;1m'' @ ''ERROR:'' @ ''165'' @ '':'' @ CHR 0x1B # ''[0;31m''
               @ '' '' @ ''environment variable not defined: '' @ ''NOPE''
               @ '', use -s to continue'' @ CHR 0x1B # ''[0m'' @ [CHR 0x0A]\<rparr>)"
    by (simp only: stdout_ex_io stderr_ex_io append_Nil)
  from u h4 h5 have b: "main ?o ex_os ex_io =
       Inl (SystemExit 1,
         \<lparr>stdout = stdout ?io1,
          stderr = stderr ?io1 @ CHR 0x1B # ''[31;1m'' @ ''ERROR:'' @ ''165'' @ '':'' @ CHR 0x1B # ''[0;31m''
               @ '' '' @ ''environment variable not defined: '' @ ''NOPE''
               @ '', use -s to continue'' @ CHR 0x1B # ''[0m'' @ [CHR 0x0A]\<rparr>)"
    by blast
  from u h4 have c: "exit_code (main ?o ex_os ex_io) = 1" by blast
  from a b c show ?thesis unfolding s1 s2 by (simp only: append_Nil simp_thms)
qed

subsection \<open>C8: a missing variable with \<^verbatim>\<open>-s\<close>\<close>

text \<open>
  C8. When the variable is not in the environment and silent mode is on, the component
  list is empty: the default mode prints one empty line, the list mode prints nothing,
  and the report prints the name, the key and the summary with the four counters at 0.
\<close>

theorem missing_variable_silent:
  assumes "environ os env = None" and "silent opts"
  shows "(\<not> list_report opts \<and> \<not> list_opt opts \<longrightarrow>
            process opts os env io = Inr (io\<lparr>stdout := stdout io @ [nl]\<rparr>))
       \<and> (\<not> list_report opts \<and> list_opt opts \<longrightarrow> process opts os env io = Inr io)
       \<and> (list_report opts \<longrightarrow>
            process opts os env io =
              Inr (print (legend 0 0 0 0 (colors opts)) (print (''Name: '' @ env) io)))"
  using assms
  by (simp add: process_def read_comps_def report_def report_init_def print_def wri_def)


text \<open>The three modes on the sample platform, without colours.\<close>

theorem missing_variable_silent_witness:
  "process (ex_opts\<lparr>silent := True\<rparr>) ex_os ''NOPE'' ex_io = Inr \<lparr>stdout = [nl], stderr = []\<rparr>
   \<and> process (ex_opts\<lparr>silent := True, list_opt := True\<rparr>) ex_os ''NOPE'' ex_io = Inr ex_io
   \<and> process (ex_opts\<lparr>silent := True, list_report := True\<rparr>) ex_os ''NOPE'' ex_io =
       Inr \<lparr>stdout = ''Name: NOPE'' @ [nl] @ [nl] @ ''Key:'' @ [nl]
              @ ''     ue   unique, exists'' @ [nl]
              @ ''     de   duplicate, exists'' @ [nl]
              @ ''     un   unique, does not exist'' @ [nl]
              @ ''     dn   duplicate, does not exist'' @ [nl]
              @ [nl] @ ''Summary:'' @ [nl]
              @ ''    Num Kept       :  0'' @ [nl]
              @ ''    Num Filtered   :  0'' @ [nl]
              @ ''    Num Duplicates :  0'' @ [nl]
              @ ''    Num Undefined  :  0'' @ [nl], stderr = []\<rparr>"
proof -
  have h: "environ ex_os ''NOPE'' = None" by code_simp
  let ?o1 = "ex_opts\<lparr>silent := True\<rparr>"
  let ?o2 = "ex_opts\<lparr>silent := True, list_opt := True\<rparr>"
  let ?o3 = "ex_opts\<lparr>silent := True, list_report := True\<rparr>"
  have a: "process ?o1 ex_os ''NOPE'' ex_io = Inr (ex_io\<lparr>stdout := stdout ex_io @ [nl]\<rparr>)"
    using missing_variable_silent [OF h, of ?o1 ex_io] by (simp add: ex_opts_def)
  have b: "process ?o2 ex_os ''NOPE'' ex_io = Inr ex_io"
    using missing_variable_silent [OF h, of ?o2 ex_io] by (simp add: ex_opts_def)
  have c: "process ?o3 ex_os ''NOPE'' ex_io =
      Inr (print (legend 0 0 0 0 (colors ?o3)) (print (''Name: '' @ ''NOPE'') ex_io))"
    using missing_variable_silent [OF h, of ?o3 ex_io] by (simp add: ex_opts_def)
  have d: "ex_io\<lparr>stdout := stdout ex_io @ [nl]\<rparr> = \<lparr>stdout = [nl], stderr = []\<rparr>"
    by (simp add: ex_io_def)
  have e: "print (legend 0 0 0 0 (colors ?o3)) (print (''Name: '' @ ''NOPE'') ex_io) =
       \<lparr>stdout = ''Name: NOPE'' @ [nl] @ [nl] @ ''Key:'' @ [nl]
              @ ''     ue   unique, exists'' @ [nl]
              @ ''     de   duplicate, exists'' @ [nl]
              @ ''     un   unique, does not exist'' @ [nl]
              @ ''     dn   duplicate, does not exist'' @ [nl]
              @ [nl] @ ''Summary:'' @ [nl]
              @ ''    Num Kept       :  0'' @ [nl]
              @ ''    Num Filtered   :  0'' @ [nl]
              @ ''    Num Duplicates :  0'' @ [nl]
              @ ''    Num Undefined  :  0'' @ [nl], stderr = []\<rparr>"
    by code_simp
  from a b c show ?thesis unfolding d e by blast
qed

lemma str_split_nonempty: "str_split sep s \<noteq> []"
  by (induction s) (auto split: list.splits)

lemma str_split_no_sep_elem: "w \<in> set (str_split sep s) \<Longrightarrow> sep \<notin> set w"
proof (induction s arbitrary: w)
  case Nil
  then show ?case by simp
next
  case (Cons c cs)
  show ?case
  proof (cases "c = sep")
    case True
    then show ?thesis using Cons by auto
  next
    case False
    obtain v vs where sp: "str_split sep cs = v # vs"
      using str_split_nonempty [of sep cs] by (cases "str_split sep cs") auto
    then have "w = c # v \<or> w \<in> set vs" using Cons.prems False by simp
    then show ?thesis
    proof
      assume "w = c # v"
      moreover have "sep \<notin> set v" using Cons.IH [of v] sp by simp
      ultimately show ?thesis using False by auto
    next
      assume "w \<in> set vs"
      then show ?thesis using Cons.IH [of w] sp by simp
    qed
  qed
qed

lemma str_split_no_sep: "sep \<notin> set x \<Longrightarrow> str_split sep x = [x]"
  by (induction x) auto

lemma str_split_append_sep:
  "sep \<notin> set x \<Longrightarrow> str_split sep (x @ sep # rest) = x # str_split sep rest"
  by (induction x) auto

lemma split_join:
  "xs \<noteq> [] \<Longrightarrow> (\<forall>w\<in>set xs. sep \<notin> set w) \<Longrightarrow> str_split sep (str_join [sep] xs) = xs"
proof (induction "[sep]" xs rule: str_join.induct)
  case 1
  then show ?case by simp
next
  case (2 x)
  then show ?case by (simp add: str_split_no_sep)
next
  case (3 x y ys)
  then show ?case by (simp add: str_split_append_sep)
qed

lemma is_dup_environ: "is_dup (os\<lparr>environ := e\<rparr>) dups c = is_dup os dups c"
  by (simp add: is_dup_def get_canon_def)

lemma exists_environ: "exists (os\<lparr>environ := e\<rparr>) c = exists os c"
  by (simp add: exists_def get_canon_def)

lemma process_loop_environ:
  "process_loop opts (os\<lparr>environ := e\<rparr>) comps st = process_loop opts os comps st"
proof (induction comps arbitrary: st)
  case Nil
  show ?case by (cases st) simp
next
  case (Cons c comps)
  obtain dups acc where st: "st = (dups, acc)" by (cases st)
  show ?case unfolding st
    by (auto simp: is_dup_environ exists_environ Cons.IH split: prod.splits bool.splits)
qed

lemma distinct_keys_process_loop:
  assumes "distinct (map (get_canon os) acc)" and "get_canon os ` set acc \<subseteq> dom dups"
  shows "distinct (map (get_canon os) (snd (process_loop opts os comps (dups, acc))))"
  using assms
proof (induction comps arbitrary: dups acc)
  case Nil
  then show ?case by simp
next
  case (Cons c comps)
  obtain d dups' where step: "is_dup os dups c = (d, dups')"
    by (cases "is_dup os dups c")
  have d: "d = (get_canon os c \<in> dom dups)"
    using fst_is_dup [of os dups c] step by simp
  have dups': "dom dups' = insert (get_canon os c) (dom dups)"
    using dom_is_dup [of os dups c] step by simp
  have sub: "get_canon os ` set acc \<subseteq> dom dups'"
    using Cons.prems(2) dups' by auto
  show ?case
  proof (cases "d \<or> (undefined_opt opts \<and> \<not> exists os c)")
    case True
    then have "process_loop opts os (c # comps) (dups, acc) = process_loop opts os comps (dups', acc)"
      using step by (cases d) simp_all
    then show ?thesis using Cons.IH [OF Cons.prems(1) sub] by simp
  next
    case False
    then have run: "process_loop opts os (c # comps) (dups, acc) =
        process_loop opts os comps (dups', acc @ [c])"
      using step by (cases d) auto
    have "get_canon os c \<notin> get_canon os ` set acc"
      using False d Cons.prems(2) by auto
    then have 1: "distinct (map (get_canon os) (acc @ [c]))"
      using Cons.prems(1) by simp
    have 2: "get_canon os ` set (acc @ [c]) \<subseteq> dom dups'"
      using sub dups' by auto
    show ?thesis unfolding run by (rule Cons.IH [OF 1 2])
  qed
qed

lemma exists_process_loop:
  assumes "undefined_opt opts" and "\<forall>x\<in>set acc. exists os x"
  shows "\<forall>x\<in>set (snd (process_loop opts os comps (dups, acc))). exists os x"
  using assms(2)
proof (induction comps arbitrary: dups acc)
  case Nil
  then show ?case by simp
next
  case (Cons c comps)
  obtain d dups' where step: "is_dup os dups c = (d, dups')"
    by (cases "is_dup os dups c")
  show ?case
  proof (cases "d \<or> \<not> exists os c")
    case True
    then have "process_loop opts os (c # comps) (dups, acc) = process_loop opts os comps (dups', acc)"
      using step assms(1) by (cases d) simp_all
    then show ?thesis using Cons.IH [OF Cons.prems] by simp
  next
    case False
    then have run: "process_loop opts os (c # comps) (dups, acc) =
        process_loop opts os comps (dups', acc @ [c])"
      using step by (cases d) simp_all
    have "\<forall>x\<in>set (acc @ [c]). exists os x" using Cons.prems False by simp
    then show ?thesis unfolding run by (rule Cons.IH)
  qed
qed

lemma process_loop_fixed:
  assumes "distinct (map (get_canon os) xs)"
    and "dom dups \<inter> get_canon os ` set xs = {}"
    and "undefined_opt opts \<longrightarrow> (\<forall>x\<in>set xs. exists os x)"
  shows "snd (process_loop opts os xs (dups, acc)) = acc @ xs"
  using assms
proof (induction xs arbitrary: dups acc)
  case Nil
  show ?case by simp
next
  case (Cons c xs)
  obtain d dups' where step: "is_dup os dups c = (d, dups')"
    by (cases "is_dup os dups c")
  have d: "d = (get_canon os c \<in> dom dups)"
    using fst_is_dup [of os dups c] step by simp
  have dups': "dom dups' = insert (get_canon os c) (dom dups)"
    using dom_is_dup [of os dups c] step by simp
  have nd: "\<not> d" using d Cons.prems(2) by auto
  have ex: "\<not> (undefined_opt opts \<and> \<not> exists os c)" using Cons.prems(3) by simp
  have run: "process_loop opts os (c # xs) (dups, acc) = process_loop opts os xs (dups', acc @ [c])"
    using step nd ex by auto
  have 1: "distinct (map (get_canon os) xs)" using Cons.prems(1) by simp
  have 2: "dom dups' \<inter> get_canon os ` set xs = {}"
    using Cons.prems(1,2) dups' by auto
  have 3: "undefined_opt opts \<longrightarrow> (\<forall>x\<in>set xs. exists os x)" using Cons.prems(3) by simp
  show ?case unfolding run using Cons.IH [OF 1 2 3, of "acc @ [c]"] by simp
qed

lemma rerun_single_empty:
  "str_join [sep] (snd (process_loop opts os [[]] (Map.empty, []))) = []"
  by (simp add: is_dup_def Let_def)

lemma process_default:
  assumes "\<not> list_report opts" and "\<not> list_opt opts"
    and "read_comps opts os env io = Inr comps"
  shows "process opts os env io =
     Inr (print (str_join [pathsep os] (snd (process_loop opts os comps (Map.empty, [])))) io)"
  using assms by (simp add: process_def split_beta)

lemma rerun:
  assumes "\<forall>c\<in>set comps. sep \<notin> set c"
    and new_def: "new = snd (process_loop opts os comps (Map.empty, []))"
  shows "str_join [sep] (snd (process_loop opts os (str_split sep (str_join [sep] new))
           (Map.empty, []))) = str_join [sep] new"
proof (cases "new = []")
  case True
  have "str_split sep (str_join [sep] new) = [[]]" using True by simp
  then show ?thesis using True by (simp only: rerun_single_empty str_join.simps)
next
  case False
  have sub: "set new \<subseteq> set comps"
    unfolding new_def using process_loop_in_comps [of opts os comps Map.empty "[]"] by simp
  then have "\<forall>w\<in>set new. sep \<notin> set w" using assms(1) by auto
  then have sp: "str_split sep (str_join [sep] new) = new"
    using False by (simp add: split_join)
  have 1: "distinct (map (get_canon os) new)"
    unfolding new_def by (rule distinct_keys_process_loop) simp_all
  have 3: "undefined_opt opts \<longrightarrow> (\<forall>x\<in>set new. exists os x)"
    unfolding new_def using exists_process_loop [of opts "[]" os comps Map.empty] by simp
  have "snd (process_loop opts os new (Map.empty, [])) = [] @ new"
    by (rule process_loop_fixed [OF 1 _ 3]) simp
  then show ?thesis unfolding sp by simp
qed

subsection \<open>C5: the shell output is idempotent\<close>

text \<open>
  C5. Whenever the default mode returns, it has printed one line; with the variable set
  to that line (same options, same \<^verbatim>\<open>os.path\<close> functions, same starting
  streams) it prints the same line again. The reason: the survivors of the loop, for any
  component list, have pairwise distinct canonical keys.
\<close>

theorem shell_output_idempotent:
  assumes "\<not> list_report opts" and "\<not> list_opt opts"
    and "process opts os env io = Inr io1"
  shows "(\<exists>line. io1 = print line io
           \<and> process opts (os\<lparr>environ := (environ os)(env \<mapsto> line)\<rparr>) env io = Inr io1)
       \<and> distinct (map (get_canon os) (snd (process_loop opts os comps (Map.empty, []))))"
proof -
  let ?sep = "pathsep os"
  obtain comps0 where rc: "read_comps opts os env io = Inr comps0"
    using assms(3) by (cases "read_comps opts os env io") (simp_all add: process_def)
  have nosep: "\<forall>c\<in>set comps0. ?sep \<notin> set c"
    using rc str_split_no_sep_elem [of _ ?sep]
    by (auto simp: read_comps_def err_def split: option.splits if_splits)
  define new where "new = snd (process_loop opts os comps0 (Map.empty, []))"
  define line where "line = str_join [?sep] new"
  let ?os' = "os\<lparr>environ := (environ os)(env \<mapsto> line)\<rparr>"
  have io1: "io1 = print line io"
    using assms(3) process_default [OF assms(1,2) rc] by (simp add: new_def line_def)
  have rc': "read_comps opts ?os' env io = Inr (str_split ?sep line)"
    by (simp add: read_comps_def)
  have "str_join [?sep] (snd (process_loop opts os (str_split ?sep (str_join [?sep] new))
           (Map.empty, []))) = str_join [?sep] new"
    by (rule rerun [OF nosep new_def])
  then have "process opts ?os' env io = Inr (print line io)"
    using process_default [OF assms(1,2) rc']
    by (simp add: process_loop_environ line_def)
  with io1 have a: "\<exists>line. io1 = print line io
           \<and> process opts (os\<lparr>environ := (environ os)(env \<mapsto> line)\<rparr>) env io = Inr io1"
    by blast
  have b: "distinct (map (get_canon os) (snd (process_loop opts os comps (Map.empty, []))))"
    by (rule distinct_keys_process_loop) simp_all
  from a b show ?thesis by blast
qed


lemma print_inject:
  assumes "print a io = print b io"
  shows "a = b"
proof -
  have "stdout (print a io) = stdout (print b io)" using assms by simp
  then show ?thesis by (simp add: print_def wri_def)
qed

text \<open>\<^verbatim>\<open>/usr/bin:/usr/bin:/nonexistent\<close> gives \<^verbatim>\<open>/usr/bin:/nonexistent\<close>, twice.\<close>

theorem shell_output_idempotent_witness:
  "process ex_opts ex_os ''PATH'' ex_io = Inr (print ''/usr/bin:/nonexistent'' ex_io)
   \<and> process ex_opts (ex_os\<lparr>environ := (environ ex_os)(''PATH'' \<mapsto> ''/usr/bin:/nonexistent'')\<rparr>)
        ''PATH'' ex_io = Inr (print ''/usr/bin:/nonexistent'' ex_io)"
proof -
  have h1: "\<not> list_report ex_opts" by (simp add: ex_opts_def)
  have h2: "\<not> list_opt ex_opts" by (simp add: ex_opts_def)
  have h3: "process ex_opts ex_os ''PATH'' ex_io = Inr (print ''/usr/bin:/nonexistent'' ex_io)"
    by code_simp
  obtain line where l: "print ''/usr/bin:/nonexistent'' ex_io = print line ex_io"
    and p: "process ex_opts (ex_os\<lparr>environ := (environ ex_os)(''PATH'' \<mapsto> line)\<rparr>) ''PATH'' ex_io
        = Inr (print ''/usr/bin:/nonexistent'' ex_io)"
    using shell_output_idempotent [OF h1 h2 h3, of "[]"] by blast
  have "line = ''/usr/bin:/nonexistent''"
    using print_inject [OF l] by simp
  with h3 p show ?thesis by simp
qed

lemma str_split_snoc_sep: "str_split sep (s @ [sep]) = str_split sep s @ [[]]"
proof (induction s)
  case Nil
  show ?case by simp
next
  case (Cons c cs)
  obtain v vs where sp: "str_split sep cs = v # vs"
    using str_split_nonempty [of sep cs] by (cases "str_split sep cs") auto
  show ?case using Cons.IH sp by simp
qed

lemma normpath_loop_append:
  "normpath_loop n (xs @ ys) acc = normpath_loop n ys (normpath_loop n xs acc)"
  by (induction xs arbitrary: acc) simp_all

lemma startswith_snoc:
  assumes "s \<noteq> []" and "last s \<noteq> c" and "set p \<subseteq> {c}"
  shows "startswith (s @ [c]) p = startswith s p"
proof (cases "length p \<le> length s")
  case True
  then show ?thesis by (simp add: startswith_def)
next
  case False
  then have long: "length s < length p" by simp
  have "\<not> startswith s p" using long by (auto simp: startswith_def)
  moreover have "\<not> startswith (s @ [c]) p"
  proof
    assume "startswith (s @ [c]) p"
    then have "take (length p) (s @ [c]) = p" by (simp add: startswith_def)
    then have "s @ [c] = p" using long by simp
    moreover have "last s \<in> set s" using assms(1) by simp
    ultimately have "last s \<in> set p" by auto
    then show False using assms(2,3) by auto
  qed
  ultimately show ?thesis by simp
qed

lemma initial_slashes_snoc:
  assumes "s \<noteq> []" and "last s \<noteq> CHR ''/''"
  shows "initial_slashes_of (s @ ''/'') = initial_slashes_of s"
  using assms by (simp add: initial_slashes_of_def startswith_snoc)

lemma endswith_slash: "s \<noteq> [] \<Longrightarrow> endswith s ''/'' = (last s = CHR ''/'')"
proof -
  assume ne: "s \<noteq> []"
  then have "s = butlast s @ [last s]" by simp
  then have "drop (length s - 1) s = [last s]"
    by (metis append_eq_conv_conj length_butlast)
  moreover have "1 \<le> length s" using ne by (cases s) simp_all
  ultimately show ?thesis by (simp add: endswith_def)
qed

lemma normpath_snoc_slash:
  assumes "s \<noteq> []" and "last s \<noteq> CHR ''/''"
  shows "posix_normpath (s @ ''/'') = posix_normpath s"
  using assms
  by (simp add: posix_normpath_def initial_slashes_snoc str_split_snoc_sep
        normpath_loop_append Let_def)

lemma normpath_join_empty: "posix_normpath (posix_join cwd []) = posix_normpath cwd"
proof (cases "cwd = []")
  case True
  then show ?thesis by (simp add: posix_join_def startswith_def)
next
  case False
  show ?thesis
  proof (cases "last cwd = CHR ''/''")
    case True
    then show ?thesis using False by (simp add: posix_join_def startswith_def endswith_slash)
  next
    case slash: False
    then have "posix_join cwd [] = cwd @ ''/''"
      using False by (simp add: posix_join_def startswith_def endswith_slash)
    then show ?thesis using False slash by (simp add: normpath_snoc_slash)
  qed
qed

lemma get_canon_empty: "get_canon (posix_os px) [] = posix_normpath (px_getcwd px)"
  by (simp add: get_canon_def posix_os_def posix_expanduser_def posix_abspath_def
        startswith_def normpath_join_empty)

subsection \<open>C6: the empty value and the empty component\<close>

text \<open>
  C6, as amended. A variable defined with the empty string gives one component, the
  empty string (\<^verbatim>\<open>''.split(os.pathsep)\<close> is \<^verbatim>\<open>['']\<close>), never an empty
  list. On POSIX the empty component canonicalises to
  \<^verbatim>\<open>normpath(join(getcwd(), ''))\<close>, which is the working directory when that is
  a normalised path, as \<^verbatim>\<open>getcwd\<close> returns it.
\<close>

theorem empty_value_one_component:
  assumes "px_environ px env = Some []"
    and "posix_normpath (px_getcwd px) = px_getcwd px"
  shows "read_comps opts (posix_os px) env io = Inr [[]]
       \<and> get_canon (posix_os px) [] = posix_normpath (posix_join (px_getcwd px) [])
       \<and> get_canon (posix_os px) [] = px_getcwd px"
proof -
  have a: "read_comps opts (posix_os px) env io = Inr [[]]"
    using assms(1) by (simp add: read_comps_def posix_os_def)
  have b: "get_canon (posix_os px) [] = posix_normpath (posix_join (px_getcwd px) [])"
    by (simp add: get_canon_def posix_os_def posix_expanduser_def posix_abspath_def
          startswith_def)
  have c: "get_canon (posix_os px) [] = px_getcwd px"
    using assms(2) by (simp add: get_canon_empty)
  from a b c show ?thesis by blast
qed

lemma ex_cwd_normal: "posix_normpath (px_getcwd ex_posix) = px_getcwd ex_posix"
  by code_simp

lemma ex_cwd: "px_getcwd ex_posix = ''/work''"
  by code_simp

text \<open>On the sample platform, with working directory \<^verbatim>\<open>/work\<close>.\<close>

theorem empty_value_one_component_witness:
  "read_comps ex_opts ex_os ''EMPTY'' ex_io = Inr [[]] \<and> get_canon ex_os [] = ''/work''"
proof -
  have h1: "px_environ ex_posix ''EMPTY'' = Some []" by code_simp
  show ?thesis
    using empty_value_one_component [OF h1 ex_cwd_normal, of ex_opts ex_io]
    unfolding ex_os_def [symmetric] ex_cwd by blast
qed

text \<open>
  C6 as stated fails: the variable \<^verbatim>\<open>EMPTY\<close> of the sample platform is defined
  with the empty string, and its component list is not empty but has length 1.
\<close>

theorem empty_value_counterexample:
  "environ ex_os ''EMPTY'' = Some []
   \<and> read_comps ex_opts ex_os ''EMPTY'' ex_io \<noteq> Inr []
   \<and> length (str_split (pathsep ex_os) []) = 1"
  by code_simp

end
